theory Spec2Isabelle
  imports Main
begin

section \<open>check\_if\_resolves.py\<close>

text \<open>
  The script reads the domain names from the command line and resolves them one after
  the other:
  \<^verbatim>\<open>
  domains = sys.argv[1:]
  for domain in domains:
      try:
          ip = socket.gethostbyname(domain)
          print(f"{domain} resolves to {ip}")
      except socket.gaierror:
          print(f"{domain} does not resolve")
  \<close>
  The embedding keeps the two effects of the script explicit: the calls of
  \<open>socket.gethostbyname\<close> and the calls of \<open>print\<close>, each of which may raise.
\<close>

subsection \<open>Exceptions, the resolver and the standard output\<close>

text \<open>
  The \<open>except\<close> clause names one exception class, \<open>socket.gaierror\<close>. Every
  other exception a call can raise (an encoding failure of the host name or of a line to
  print, a closed output stream, an interrupt) is \<open>OtherException\<close>, with the text of
  the exception.
\<close>

datatype py_exception = Gaierror | OtherException string

text \<open>
  \<open>socket.gethostbyname\<close> is library code: it is a parameter of the model. A call
  takes the state of the world outside the script (the resolver, its caches, the network,
  the output stream) and the name; it raises (\<open>Inl\<close>) or returns one address
  (\<open>Inr\<close>), and leaves the world in a new state, so that two calls with the same name
  may answer differently.
\<close>

type_synonym answer = "py_exception + string"

type_synonym 'w resolver = "'w \<Rightarrow> string \<Rightarrow> answer \<times> 'w"

text \<open>
  \<open>print\<close> is a parameter as well. A call takes the state of the world and the text;
  it writes the text as one line (\<open>None\<close>) or raises and writes nothing
  (\<open>Some t\<close>, with the text \<open>t\<close> of the exception): the encoding of the standard
  output may not have a character of the text, the stream may be closed. The class
  \<open>socket.gaierror\<close> is raised by the socket module only, so an exception of
  \<open>print\<close> is an \<open>OtherException\<close>; the \<open>except\<close> clause never catches it.
\<close>

type_synonym 'w printer = "'w \<Rightarrow> string \<Rightarrow> string option \<times> 'w"

subsection \<open>The state of a run\<close>

text \<open>
  \<open>world\<close> is the state of the world outside the script; \<open>calls\<close> the calls of
  \<open>gethostbyname\<close> made so far, each with its argument and its answer, oldest first;
  \<open>prints\<close> the calls of \<open>print\<close> made so far, each with its text and its
  outcome, oldest first; and \<open>stdout\<close> the lines written so far, oldest first.
\<close>

record 'w run_state =
  world :: 'w
  calls :: "(string \<times> answer) list"
  prints :: "(string \<times> string option) list"
  stdout :: "string list"

subsection \<open>The two messages\<close>

definition resolves_msg :: "string \<Rightarrow> string \<Rightarrow> string" where
  "resolves_msg domain ip = domain @ '' resolves to '' @ ip"

definition does_not_resolve_msg :: "string \<Rightarrow> string" where
  "does_not_resolve_msg domain = domain @ '' does not resolve''"

subsection \<open>The loop\<close>

text \<open>
  One iteration: the \<open>try\<close> statement for one domain. The result is \<open>None\<close> when
  the iteration ends normally and \<open>Some e\<close> when the exception \<open>e\<close> leaves the
  \<open>try\<close> statement: an exception of \<open>gethostbyname\<close> other than \<open>gaierror\<close>,
  an exception of the \<open>print\<close> in the body of \<open>try\<close>, or an exception of the
  \<open>print\<close> in the handler.
\<close>

definition loop_body ::
  "'w resolver \<Rightarrow> 'w printer \<Rightarrow> string \<Rightarrow> 'w run_state
     \<Rightarrow> py_exception option \<times> 'w run_state" where
  "loop_body gethostbyname print domain s =
     (case gethostbyname (world s) domain of
        (Inr ip, w1) \<Rightarrow>
          (case print w1 (resolves_msg domain ip) of
             (None, w2) \<Rightarrow>
               (None, s\<lparr>world := w2,
                        calls := calls s @ [(domain, Inr ip)],
                        prints := prints s @ [(resolves_msg domain ip, None)],
                        stdout := stdout s @ [resolves_msg domain ip]\<rparr>)
           | (Some t, w2) \<Rightarrow>
               (Some (OtherException t),
                s\<lparr>world := w2,
                  calls := calls s @ [(domain, Inr ip)],
                  prints := prints s @ [(resolves_msg domain ip, Some t)]\<rparr>))
      | (Inl e, w1) \<Rightarrow>
          (if e = Gaierror
           then (case print w1 (does_not_resolve_msg domain) of
                   (None, w2) \<Rightarrow>
                     (None, s\<lparr>world := w2,
                              calls := calls s @ [(domain, Inl e)],
                              prints := prints s @ [(does_not_resolve_msg domain, None)],
                              stdout := stdout s @ [does_not_resolve_msg domain]\<rparr>)
                 | (Some t, w2) \<Rightarrow>
                     (Some (OtherException t),
                      s\<lparr>world := w2,
                        calls := calls s @ [(domain, Inl e)],
                        prints := prints s @ [(does_not_resolve_msg domain, Some t)]\<rparr>))
           else (Some e, s\<lparr>world := w1,
                           calls := calls s @ [(domain, Inl e)]\<rparr>)))"

text \<open>
  The \<open>for\<close> statement: the domains in order; an uncaught exception ends the loop
  and leaves the script.
\<close>

fun for_loop ::
  "'w resolver \<Rightarrow> 'w printer \<Rightarrow> string list \<Rightarrow> 'w run_state
     \<Rightarrow> py_exception option \<times> 'w run_state" where
  "for_loop gethostbyname print [] s = (None, s)"
| "for_loop gethostbyname print (domain # domains) s =
     (case loop_body gethostbyname print domain s of
        (None, s') \<Rightarrow> for_loop gethostbyname print domains s'
      | (Some e, s') \<Rightarrow> (Some e, s'))"

text \<open>
  The script: \<open>sys.argv[1:]\<close> is the argument list without its first entry (the slice
  of an empty list is empty), and the run starts with no call made and nothing printed.
\<close>

definition initial :: "'w \<Rightarrow> 'w run_state" where
  "initial w = \<lparr>world = w, calls = [], prints = [], stdout = []\<rparr>"

definition check_if_resolves ::
  "'w resolver \<Rightarrow> 'w printer \<Rightarrow> string list \<Rightarrow> 'w
     \<Rightarrow> py_exception option \<times> 'w run_state" where
  "check_if_resolves gethostbyname print argv w =
     (let domains = drop 1 argv in for_loop gethostbyname print domains (initial w))"

subsection \<open>Reading a run\<close>

text \<open>
  The line the script has for one call: on a returned address the first message, on
  \<open>gaierror\<close> the second, on any other exception none.
\<close>

fun line_of :: "string \<times> answer \<Rightarrow> string list" where
  "line_of (domain, Inr ip) = [resolves_msg domain ip]"
| "line_of (domain, Inl e) = (if e = Gaierror then [does_not_resolve_msg domain] else [])"

definition lines_of :: "(string \<times> answer) list \<Rightarrow> string list" where
  "lines_of cs = concat (map line_of cs)"

text \<open>An answer the \<open>except\<close> clause does not catch.\<close>

fun uncaught :: "answer \<Rightarrow> bool" where
  "uncaught (Inl e) = (e \<noteq> Gaierror)"
| "uncaught (Inr ip) = False"

text \<open>The texts that the calls of \<open>print\<close> of a log wrote.\<close>

definition written :: "(string \<times> string option) list \<Rightarrow> string list" where
  "written ps = map fst (filter (\<lambda>q. snd q = None) ps)"

text \<open>
  The way a run with the calls \<open>cs\<close> and the prints \<open>ps\<close> ends: with the exception
  of the last call when the \<open>except\<close> clause does not catch it, else with the
  exception of the last \<open>print\<close> when it raised one, else normally.
\<close>

definition ending ::
  "(string \<times> answer) list \<Rightarrow> (string \<times> string option) list \<Rightarrow> py_exception option" where
  "ending cs ps =
     (if cs = [] then None
      else (case snd (last cs) of
              Inl e \<Rightarrow>
                if e = Gaierror
                then (if ps = [] then None else map_option OtherException (snd (last ps)))
                else Some e
            | Inr ip \<Rightarrow>
                if ps = [] then None else map_option OtherException (snd (last ps))))"

text \<open>
  A resolver that, on the names of a list, raises no exception but \<open>gaierror\<close>,
  whatever the state of the world; and a standard output on which \<open>print\<close> never
  raises.
\<close>

definition raises_only_gaierror :: "'w resolver \<Rightarrow> string list \<Rightarrow> bool" where
  "raises_only_gaierror gethostbyname domains =
     (\<forall>w. \<forall>d \<in> set domains. \<not> uncaught (fst (gethostbyname w d)))"

definition never_raises :: "'w printer \<Rightarrow> bool" where
  "never_raises print = (\<forall>w l. fst (print w l) = None)"

subsection \<open>A resolver and two standard outputs for concrete runs\<close>

text \<open>
  A stand-in for \<open>socket.gethostbyname\<close> on which runs can be evaluated. The world is
  the number of queries sent to the platform's resolver. A name with a character outside
  ASCII is encoded before any query is sent, and the encoding fails on a label of more
  than 63 characters: the call raises an exception that is not \<open>gaierror\<close>.
  The empty name gives the wildcard address, again without a query.
  \<open>example.com\<close> resolves, to its first address; no other name resolves.
\<close>

fun labels :: "string \<Rightarrow> string list" where
  "labels [] = [[]]"
| "labels (c # cs) =
     (if c = CHR ''.'' then [] # labels cs
      else (case labels cs of [] \<Rightarrow> [[c]] | l # ls \<Rightarrow> (c # l) # ls))"

definition is_ascii :: "string \<Rightarrow> bool" where
  "is_ascii name = list_all (\<lambda>c. of_char c < (128::nat)) name"

definition label_too_long :: "string \<Rightarrow> bool" where
  "label_too_long name = list_ex (\<lambda>l. 63 < length l) (labels name)"

definition long_label :: string where
  "long_label = replicate 64 (CHR 0xE4) @ ''.example''"

definition test_resolver :: "nat resolver" where
  "test_resolver n name =
     (if name = [] then (Inr ''0.0.0.0'', n)
      else if \<not> is_ascii name \<and> label_too_long name
        then (Inl (OtherException ''encoding of hostname failed''), n)
      else if name = ''example.com'' then (Inr ''93.184.216.34'', Suc n)
      else (Inl Gaierror, Suc n))"


text \<open>
  Two stand-ins for \<open>print\<close>: a standard output that takes every text, and one
  whose encoding is ASCII, on which a text with any other character raises.
  \<open>accented\<close> is a name with such a character, the letter e with an acute accent.
\<close>

definition utf8_print :: "'w printer" where
  "utf8_print w l = (None, w)"



subsection \<open>The resolver over a facility that answers with several addresses\<close>




section \<open>DNSDumpster.py\<close>


text \<open>
  The namespace \<open>parse_args\<close> returns: the option \<open>-d\<close> is stored under
  \<open>domain\<close>, which is \<open>None\<close> when the option is absent.
\<close>

record args =
  domain :: "string option"






section \<open>Properties of the loop\<close>

text \<open>
  The loop over a list that is split in two runs the first part and, when no exception
  left it, the second part from the state reached.
\<close>

lemma for_loop_append:
  "for_loop g p (xs @ ys) s =
     (case for_loop g p xs s of
        (None, s') \<Rightarrow> for_loop g p ys s'
      | (Some e, s') \<Rightarrow> (Some e, s'))"
  by (induction xs arbitrary: s) (auto split: prod.splits option.splits)

text \<open>
  One iteration, by the answer of the resolver and the outcome of \<open>print\<close>: an answer
  that is not caught, a caught answer whose line is written, a caught answer whose
  \<open>print\<close> raises.
\<close>

lemma loop_body_uncaught:
  assumes "g (world s) d = (Inl e, w1)" and "e \<noteq> Gaierror"
  shows "loop_body g p d s = (Some e, s\<lparr>world := w1, calls := calls s @ [(d, Inl e)]\<rparr>)"
  using assms by (simp add: loop_body_def)

lemma loop_body_written:
  assumes "g (world s) d = (a, w1)" and "line_of (d, a) = [m]" and "p w1 m = (None, w2)"
  shows "loop_body g p d s =
     (None, s\<lparr>world := w2, calls := calls s @ [(d, a)], prints := prints s @ [(m, None)],
              stdout := stdout s @ [m]\<rparr>)"
  using assms by (cases a) (auto simp: loop_body_def split: if_splits)

lemma loop_body_print_raises:
  assumes "g (world s) d = (a, w1)" and "line_of (d, a) = [m]" and "p w1 m = (Some t, w2)"
  shows "loop_body g p d s =
     (Some (OtherException t),
      s\<lparr>world := w2, calls := calls s @ [(d, a)], prints := prints s @ [(m, Some t)]\<rparr>)"
  using assms by (cases a) (auto simp: loop_body_def split: if_splits)

lemma line_of_cases:
  obtains (uncaught) e where "a = Inl e" "e \<noteq> Gaierror" "line_of (d, a) = []" "uncaught a"
  | (caught) m where "line_of (d, a) = [m]" "\<not> uncaught a"
  by (cases a) auto

lemma lines_of_append: "lines_of (xs @ ys) = lines_of xs @ lines_of ys"
  by (simp add: lines_of_def)

lemma written_append: "written (xs @ ys) = written xs @ written ys"
  by (simp add: written_def)

lemma lines_of_caught:
  "\<forall>c \<in> set cs. \<not> uncaught (snd c) \<Longrightarrow> length (lines_of cs) = length cs"
proof (induction cs)
  case Nil
  show ?case by (simp add: lines_of_def)
next
  case (Cons c cs)
  obtain d a where c: "c = (d, a)" by (cases c)
  from Cons.prems have "\<not> uncaught a" by (simp add: c)
  then have "length (line_of (d, a)) = 1" by (cases a) auto
  with Cons show ?case by (simp add: lines_of_def c)
qed

lemma lines_of_nth:
  "\<forall>c \<in> set cs. \<not> uncaught (snd c) \<Longrightarrow> i < length cs \<Longrightarrow> line_of (cs ! i) = [lines_of cs ! i]"
proof (induction cs arbitrary: i)
  case Nil
  then show ?case by simp
next
  case (Cons c cs)
  obtain d a where c: "c = (d, a)" by (cases c)
  from Cons.prems have na: "\<not> uncaught a" by (simp add: c)
  then have one: "\<exists>l. line_of (d, a) = [l]" by (cases a) auto
  then obtain l where l: "line_of (d, a) = [l]" by blast
  have eq: "lines_of (c # cs) = l # lines_of cs" by (simp add: lines_of_def c l)
  show ?case
  proof (cases i)
    case 0
    with eq l show ?thesis by (simp add: c)
  next
    case (Suc k)
    with Cons show ?thesis by (simp add: eq)
  qed
qed

lemma written_all:
  "\<forall>q \<in> set ps. snd q = None \<Longrightarrow> written ps = map fst ps"
  by (simp add: written_def)

text \<open>
  What a run adds to the state. The calls are recorded in order and their arguments are
  the first entries of the list of domains; the texts of the prints are the lines of the
  calls; the lines written are the texts of the prints that did not raise; no call but
  the last raised an exception the \<open>except\<close> clause does not catch, and no
  \<open>print\<close> but the last raised; the run ends as the last call and the last
  \<open>print\<close> say; and a run that ends normally made one call for each domain, all
  caught, and wrote the line of each.
\<close>

lemma for_loop_log:
  "for_loop g p ds s = (r, s') \<Longrightarrow>
   \<exists>cs ps. calls s' = calls s @ cs \<and> prints s' = prints s @ ps
      \<and> stdout s' = stdout s @ written ps
      \<and> map fst cs = take (length cs) ds
      \<and> map fst ps = lines_of cs
      \<and> (\<forall>c \<in> set (butlast cs). \<not> uncaught (snd c))
      \<and> (\<forall>q \<in> set (butlast ps). snd q = None)
      \<and> r = ending cs ps
      \<and> (r = None \<longrightarrow> length cs = length ds \<and> (\<forall>c \<in> set cs. \<not> uncaught (snd c))
                          \<and> (\<forall>q \<in> set ps. snd q = None))"
proof (induction ds arbitrary: r s' rule: rev_induct)
  case Nil
  then show ?case
    by (intro exI[of _ "[]"]) (auto simp: lines_of_def written_def ending_def)
next
  case (snoc d ds)
  obtain r0 s0 where run0: "for_loop g p ds s = (r0, s0)" by (cases "for_loop g p ds s")
  from snoc.IH[OF run0] obtain cs ps where ih:
      "calls s0 = calls s @ cs" "prints s0 = prints s @ ps"
      "stdout s0 = stdout s @ written ps"
      "map fst cs = take (length cs) ds"
      "map fst ps = lines_of cs"
      "\<forall>c \<in> set (butlast cs). \<not> uncaught (snd c)"
      "\<forall>q \<in> set (butlast ps). snd q = None"
      "r0 = ending cs ps"
      "r0 = None \<longrightarrow> length cs = length ds \<and> (\<forall>c \<in> set cs. \<not> uncaught (snd c))
                          \<and> (\<forall>q \<in> set ps. snd q = None)"
    by (elim exE conjE) (rule that)
  have le: "length cs \<le> length ds"
    using arg_cong[OF ih(4), of length] by simp
  show ?case
  proof (cases r0)
    case (Some e)
    with snoc.prems run0 have r: "r = r0" and s': "s' = s0"
      by (simp_all add: for_loop_append)
    have names: "map fst cs = take (length cs) (ds @ [d])" using ih(4) le by simp
    have 9: "r0 = None \<longrightarrow> length cs = length (ds @ [d])
        \<and> (\<forall>c \<in> set cs. \<not> uncaught (snd c)) \<and> (\<forall>q \<in> set ps. snd q = None)"
      by (simp add: Some)
    from ih(1) ih(2) ih(3) names ih(5) ih(6) ih(7) ih(8) 9 show ?thesis unfolding r s'
      by (intro exI[of _ cs] exI[of _ ps] conjI)
  next
    case None
    with ih(9) have full: "length cs = length ds" "\<forall>c \<in> set cs. \<not> uncaught (snd c)"
      "\<forall>q \<in> set ps. snd q = None" by simp_all
    from snoc.prems run0 None have body: "loop_body g p d s0 = (r, s')"
      by (simp add: for_loop_append split: prod.splits option.splits)
    obtain a w1 where ans: "g (world s0) d = (a, w1)" by (cases "g (world s0) d")
    have names: "map fst (cs @ [(d, a)]) = take (length (cs @ [(d, a)])) (ds @ [d])"
      using ih(4) full(1) by simp
    show ?thesis
    proof (cases rule: line_of_cases[of a d])
      case (uncaught e)
      from body loop_body_uncaught[of g s0 d e w1 p] ans uncaught
      have r: "r = Some e" and s': "s' = s0\<lparr>world := w1, calls := calls s0 @ [(d, Inl e)]\<rparr>"
        by simp_all
      have 1: "calls s' = calls s @ (cs @ [(d, a)])" by (simp add: s' ih(1) uncaught(1))
      have 2: "prints s' = prints s @ ps" by (simp add: s' ih(2))
      have 3: "stdout s' = stdout s @ written ps" by (simp add: s' ih(3))
      have 5: "map fst ps = lines_of (cs @ [(d, a)])"
        using ih(5) uncaught(3) by (simp add: lines_of_append) (simp add: lines_of_def)
      have 6: "\<forall>c \<in> set (butlast (cs @ [(d, a)])). \<not> uncaught (snd c)" using full(2) by simp
      have 8: "r = ending (cs @ [(d, a)]) ps"
        using uncaught(1,2) by (simp add: r ending_def)
      have 9: "r = None \<longrightarrow> length (cs @ [(d, a)]) = length (ds @ [d])
          \<and> (\<forall>c \<in> set (cs @ [(d, a)]). \<not> uncaught (snd c)) \<and> (\<forall>q \<in> set ps. snd q = None)"
        by (simp add: r)
      from 1 2 3 names 5 6 ih(7) 8 9 show ?thesis
        by (intro exI[of _ "cs @ [(d, a)]"] exI[of _ ps] conjI)
    next
      case (caught m)
      obtain o2 w2 where pr: "p w1 m = (o2, w2)" by (cases "p w1 m")
      have 5: "map fst (ps @ [(m, o2)]) = lines_of (cs @ [(d, a)])"
        using ih(5) caught(1) by (simp add: lines_of_append) (simp add: lines_of_def)
      have 6: "\<forall>c \<in> set (butlast (cs @ [(d, a)])). \<not> uncaught (snd c)" using full(2) by simp
      have 7: "\<forall>q \<in> set (butlast (ps @ [(m, o2)])). snd q = None" using full(3) by simp
      have e8: "ending (cs @ [(d, a)]) (ps @ [(m, o2)]) = map_option OtherException o2"
        using caught(2) by (cases a) (auto simp: ending_def)
      show ?thesis
      proof (cases o2)
        case None
        from body loop_body_written[where g = g and p = p and s = s0, OF ans caught(1) pr[unfolded None]]
        have r: "r = None"
          and s': "s' = s0\<lparr>world := w2, calls := calls s0 @ [(d, a)],
                            prints := prints s0 @ [(m, None)], stdout := stdout s0 @ [m]\<rparr>"
          by simp_all
        have 1: "calls s' = calls s @ (cs @ [(d, a)])" by (simp add: s' ih(1))
        have 2: "prints s' = prints s @ (ps @ [(m, o2)])" by (simp add: s' ih(2) None)
        have 3: "stdout s' = stdout s @ written (ps @ [(m, o2)])"
          by (simp add: s' ih(3) None written_append) (simp add: written_def)
        have 8: "r = ending (cs @ [(d, a)]) (ps @ [(m, o2)])" using e8 by (simp add: r None)
        have 9: "r = None \<longrightarrow> length (cs @ [(d, a)]) = length (ds @ [d])
            \<and> (\<forall>c \<in> set (cs @ [(d, a)]). \<not> uncaught (snd c))
            \<and> (\<forall>q \<in> set (ps @ [(m, o2)]). snd q = None)"
          using full caught(2) by (simp add: None)
        from 1 2 3 names 5 6 7 8 9 show ?thesis
          by (intro exI[of _ "cs @ [(d, a)]"] exI[of _ "ps @ [(m, o2)]"] conjI)
      next
        case (Some t)
        from body loop_body_print_raises[where g = g and p = p and s = s0, OF ans caught(1) pr[unfolded Some]]
        have r: "r = Some (OtherException t)"
          and s': "s' = s0\<lparr>world := w2, calls := calls s0 @ [(d, a)],
                            prints := prints s0 @ [(m, Some t)]\<rparr>"
          by simp_all
        have 1: "calls s' = calls s @ (cs @ [(d, a)])" by (simp add: s' ih(1))
        have 2: "prints s' = prints s @ (ps @ [(m, o2)])" by (simp add: s' ih(2) Some)
        have 3: "stdout s' = stdout s @ written (ps @ [(m, o2)])"
          by (simp add: s' ih(3) Some written_append) (simp add: written_def)
        have 8: "r = ending (cs @ [(d, a)]) (ps @ [(m, o2)])" using e8 by (simp add: r Some)
        have 9: "r = None \<longrightarrow> length (cs @ [(d, a)]) = length (ds @ [d])
            \<and> (\<forall>c \<in> set (cs @ [(d, a)]). \<not> uncaught (snd c))
            \<and> (\<forall>q \<in> set (ps @ [(m, o2)]). snd q = None)"
          by (simp add: r)
        from 1 2 3 names 5 6 7 8 9 show ?thesis
          by (intro exI[of _ "cs @ [(d, a)]"] exI[of _ "ps @ [(m, o2)]"] conjI)
      qed
    qed
  qed
qed

lemma for_loop_extends:
  "\<exists>cs ls. calls (snd (for_loop g p ds s)) = calls s @ cs
      \<and> stdout (snd (for_loop g p ds s)) = stdout s @ ls"
proof -
  obtain r s' where run: "for_loop g p ds s = (r, s')" by (cases "for_loop g p ds s")
  from for_loop_log[OF run] show ?thesis by (auto simp: run)
qed

text \<open>The same for the script, which starts with empty logs.\<close>

lemma check_log:
  assumes "check_if_resolves g p argv w = (r, s')"
  shows "stdout s' = written (prints s')"
    and "map fst (calls s') = take (length (calls s')) (drop 1 argv)"
    and "map fst (prints s') = lines_of (calls s')"
    and "\<forall>c \<in> set (butlast (calls s')). \<not> uncaught (snd c)"
    and "\<forall>q \<in> set (butlast (prints s')). snd q = None"
    and "r = ending (calls s') (prints s')"
    and "r = None \<Longrightarrow> length (calls s') = length (drop 1 argv)"
    and "r = None \<Longrightarrow> \<forall>c \<in> set (calls s'). \<not> uncaught (snd c)"
    and "r = None \<Longrightarrow> \<forall>q \<in> set (prints s'). snd q = None"
proof -
  from assms have run: "for_loop g p (drop 1 argv) (initial w) = (r, s')"
    by (simp add: check_if_resolves_def)
  from for_loop_log[OF run] obtain cs ps where log:
      "calls s' = calls (initial w) @ cs" "prints s' = prints (initial w) @ ps"
      "stdout s' = stdout (initial w) @ written ps"
      "map fst cs = take (length cs) (drop 1 argv)"
      "map fst ps = lines_of cs"
      "\<forall>c \<in> set (butlast cs). \<not> uncaught (snd c)"
      "\<forall>q \<in> set (butlast ps). snd q = None"
      "r = ending cs ps"
      "r = None \<longrightarrow> length cs = length (drop 1 argv) \<and> (\<forall>c \<in> set cs. \<not> uncaught (snd c))
                          \<and> (\<forall>q \<in> set ps. snd q = None)"
    by (elim exE conjE) (rule that)
  have cs: "calls s' = cs" using log(1) by (simp add: initial_def)
  have ps: "prints s' = ps" using log(2) by (simp add: initial_def)
  show "stdout s' = written (prints s')" using log(3) by (simp add: ps initial_def)
  show "map fst (calls s') = take (length (calls s')) (drop 1 argv)"
    using log(4) by (simp add: cs)
  show "map fst (prints s') = lines_of (calls s')" using log(5) by (simp add: cs ps)
  show "\<forall>c \<in> set (butlast (calls s')). \<not> uncaught (snd c)" using log(6) by (simp add: cs)
  show "\<forall>q \<in> set (butlast (prints s')). snd q = None" using log(7) by (simp add: ps)
  show "r = ending (calls s') (prints s')" using log(8) by (simp add: cs ps)
  show "r = None \<Longrightarrow> length (calls s') = length (drop 1 argv)" using log(9) by (simp add: cs)
  show "r = None \<Longrightarrow> \<forall>c \<in> set (calls s'). \<not> uncaught (snd c)"
    using log(9) by (simp add: cs)
  show "r = None \<Longrightarrow> \<forall>q \<in> set (prints s'). snd q = None" using log(9) by (simp add: ps)
qed

text \<open>
  When no \<open>print\<close> but the last raised, the lines written are the first texts of
  the prints.
\<close>

lemma written_prefix:
  assumes "\<forall>q \<in> set (butlast ps). snd q = None"
  shows "written ps = take (length (written ps)) (map fst ps)"
proof (cases "ps = []")
  case True
  then show ?thesis by (simp add: written_def)
next
  case False
  then have split: "ps = butlast ps @ [last ps]" by simp
  have front: "written (butlast ps) = map fst (butlast ps)"
    using assms by (rule written_all)
  have w: "written ps = map fst (butlast ps) @ written [last ps]"
    using written_append[of "butlast ps" "[last ps]"] split front by simp
  have m: "map fst ps = map fst (butlast ps) @ [fst (last ps)]"
    using arg_cong[OF split, of "map fst"] by simp
  show ?thesis
  proof (cases "snd (last ps) = None")
    case True
    then have "written [last ps] = [fst (last ps)]" by (simp add: written_def)
    with w m show ?thesis by simp
  next
    case False
    then have "written [last ps] = []" by (simp add: written_def)
    with w m show ?thesis by simp
  qed
qed

text \<open>
  When no call but the last is uncaught, each of the lines of the calls is the line of
  the call at the same index.
\<close>

lemma log_nth:
  assumes caught: "\<forall>c \<in> set (butlast cs). \<not> uncaught (snd c)"
    and k: "k < length (lines_of cs)"
  shows "k < length cs \<and> line_of (cs ! k) = [lines_of cs ! k]"
proof (cases "\<forall>c \<in> set cs. \<not> uncaught (snd c)")
  case True
  with k show ?thesis by (simp add: lines_of_caught lines_of_nth)
next
  case False
  with caught have ne: "cs \<noteq> []" by auto
  then have split: "cs = butlast cs @ [last cs]" by simp
  from False caught split have "uncaught (snd (last cs))"
    by (metis Un_iff empty_iff empty_set set_ConsD set_append)
  then have "line_of (last cs) = []"
    by (cases "last cs"; cases "snd (last cs)") auto
  then have eq: "lines_of cs = lines_of (butlast cs)"
    using lines_of_append[of "butlast cs" "[last cs]"] split by (simp add: lines_of_def)
  from k have k': "k < length (butlast cs)"
    using lines_of_caught[OF caught] by (simp add: eq)
  then have "line_of (butlast cs ! k) = [lines_of (butlast cs) ! k]"
    using lines_of_nth[OF caught] by simp
  with k' show ?thesis by (simp add: eq nth_butlast)
qed

text \<open>
  Each line written by the script is the line of the call at the same index, and the
  argument of that call is the domain at that index.
\<close>

lemma stdout_nth:
  assumes run: "check_if_resolves g p argv w = (r, s')"
    and k: "k < length (stdout s')"
  shows "k < length (calls s')"
    and "line_of (calls s' ! k) = [stdout s' ! k]"
    and "fst (calls s' ! k) = drop 1 argv ! k"
    and "k < length (drop 1 argv)"
proof -
  note log = check_log[OF run]
  have pre: "stdout s' = take (length (stdout s')) (lines_of (calls s'))"
    using written_prefix[OF log(5)] by (simp add: log(1) log(3))
  have "length (stdout s') \<le> length (lines_of (calls s'))"
    using arg_cong[OF pre, of length] by simp
  with k have k': "k < length (lines_of (calls s'))" by simp
  have same: "stdout s' ! k = lines_of (calls s') ! k"
    using arg_cong[OF pre, of "\<lambda>xs. xs ! k"] k by simp
  from log_nth[OF log(4) k'] show kc: "k < length (calls s')"
    and "line_of (calls s' ! k) = [stdout s' ! k]" by (simp_all add: same)
  have "fst (calls s' ! k) = map fst (calls s') ! k" using kc by simp
  also have "\<dots> = take (length (calls s')) (drop 1 argv) ! k" by (simp only: log(2)[symmetric])
  also have "\<dots> = drop 1 argv ! k" using kc by simp
  finally show "fst (calls s' ! k) = drop 1 argv ! k" .
  have "length (map fst (calls s')) \<le> length (drop 1 argv)"
    by (subst log(2)) simp
  with kc show "k < length (drop 1 argv)" by simp
qed

text \<open>A run up to a domain \<open>d\<close> that the loop reaches, and what happens at \<open>d\<close>.\<close>

lemma reach_lengths:
  assumes "for_loop g p pre (initial w) = (None, s)"
  shows "length (stdout s) = length pre" and "length (calls s) = length pre"
proof -
  from for_loop_log[OF assms] obtain cs ps where log:
      "calls s = calls (initial w) @ cs" "stdout s = stdout (initial w) @ written ps"
      "map fst ps = lines_of cs"
      "length cs = length pre" "\<forall>c \<in> set cs. \<not> uncaught (snd c)"
      "\<forall>q \<in> set ps. snd q = None"
    by auto
  have "written ps = lines_of cs" using written_all[OF log(6)] log(3) by simp
  then show "length (stdout s) = length pre"
    using log by (simp add: initial_def lines_of_caught)
  show "length (calls s) = length pre" using log by (simp add: initial_def)
qed

lemma check_at:
  assumes "for_loop g p pre (initial w) = (None, s)"
  shows "check_if_resolves g p (script # pre @ d # post) w =
     (case loop_body g p d s of
        (None, s1) \<Rightarrow> for_loop g p post s1
      | (Some e, s1) \<Rightarrow> (Some e, s1))"
  using assms by (simp add: check_if_resolves_def for_loop_append)

lemma written_at:
  assumes reach: "for_loop g p pre (initial w) = (None, s)"
    and ans: "g (world s) d = (a, w1)"
    and line: "line_of (d, a) = [m]"
    and pr: "p w1 m = (None, w2)"
  shows "check_if_resolves g p (script # pre @ d # post) w =
           for_loop g p post
             (s\<lparr>world := w2, calls := calls s @ [(d, a)], prints := prints s @ [(m, None)],
                stdout := stdout s @ [m]\<rparr>)"
    and "calls (snd (check_if_resolves g p (script # pre @ d # post) w)) ! length pre = (d, a)"
    and "stdout (snd (check_if_resolves g p (script # pre @ d # post) w)) ! length pre = m"
    and "length pre < length (stdout (snd (check_if_resolves g p (script # pre @ d # post) w)))"
proof -
  let ?s1 = "s\<lparr>world := w2, calls := calls s @ [(d, a)], prints := prints s @ [(m, None)],
                stdout := stdout s @ [m]\<rparr>"
  show eq: "check_if_resolves g p (script # pre @ d # post) w = for_loop g p post ?s1"
    by (simp add: check_at[OF reach]
        loop_body_written[where g = g and p = p and s = s, OF ans line pr])
  obtain cs ls where ext:
    "calls (snd (for_loop g p post ?s1)) = calls ?s1 @ cs"
    "stdout (snd (for_loop g p post ?s1)) = stdout ?s1 @ ls"
    using for_loop_extends[of g p post ?s1] by blast
  note len = reach_lengths[OF reach]
  show "calls (snd (check_if_resolves g p (script # pre @ d # post) w)) ! length pre = (d, a)"
    using ext(1) len(2) by (simp add: eq nth_append)
  show "stdout (snd (check_if_resolves g p (script # pre @ d # post) w)) ! length pre = m"
    using ext(2) len(1) by (simp add: eq nth_append)
  show "length pre < length (stdout (snd (check_if_resolves g p (script # pre @ d # post) w)))"
    using ext(2) len(1) by (simp add: eq)
qed

lemma print_raises_at:
  assumes reach: "for_loop g p pre (initial w) = (None, s)"
    and ans: "g (world s) d = (a, w1)"
    and line: "line_of (d, a) = [m]"
    and pr: "p w1 m = (Some t, w2)"
  shows "check_if_resolves g p (script # pre @ d # post) w =
           (Some (OtherException t),
            s\<lparr>world := w2, calls := calls s @ [(d, a)], prints := prints s @ [(m, Some t)]\<rparr>)"
  by (simp add: check_at[OF reach]
      loop_body_print_raises[where g = g and p = p and s = s, OF ans line pr])

lemma uncaught_at:
  assumes reach: "for_loop g p pre (initial w) = (None, s)"
    and ans: "g (world s) d = (Inl e, w1)"
    and other: "e \<noteq> Gaierror"
  shows "check_if_resolves g p (script # pre @ d # post) w =
           (Some e, s\<lparr>world := w1, calls := calls s @ [(d, Inl e)]\<rparr>)"
  by (simp add: check_at[OF reach]
      loop_body_uncaught[where g = g and p = p and s = s, OF ans other])

text \<open>
  With a resolver that raises nothing but \<open>gaierror\<close> and a \<open>print\<close> that never
  raises, the loop ends normally.
\<close>

lemma only_gaierror_finishes:
  "raises_only_gaierror g ds \<Longrightarrow> never_raises p \<Longrightarrow> fst (for_loop g p ds s) = None"
proof (induction ds arbitrary: s)
  case Nil
  show ?case by simp
next
  case (Cons d ds)
  obtain a w1 where ans: "g (world s) d = (a, w1)" by (cases "g (world s) d")
  from Cons.prems(1) have "\<not> uncaught (fst (g (world s) d))"
    by (simp add: raises_only_gaierror_def)
  then have "\<not> uncaught a" by (simp add: ans)
  then obtain m where line: "line_of (d, a) = [m]" by (cases a) auto
  from Cons.prems(2) have "fst (p w1 m) = None" by (simp add: never_raises_def)
  then obtain w2 where pr: "p w1 m = (None, w2)" by (cases "p w1 m") simp
  from Cons.prems(1) have rest: "raises_only_gaierror g ds"
    by (simp add: raises_only_gaierror_def)
  show ?case
    by (simp add: loop_body_written[where g = g and p = p and s = s, OF ans line pr]
        Cons.IH[OF rest Cons.prems(2)])
qed

subsection \<open>Concrete runs\<close>

lemma test_resolver_long_label:
  "test_resolver n long_label = (Inl (OtherException ''encoding of hostname failed''), n)"
  by code_simp

lemma test_resolver_example:
  "test_resolver n ''example.com'' = (Inr ''93.184.216.34'', Suc n)"
  by (simp add: test_resolver_def is_ascii_def)

lemma test_resolver_invalid:
  "test_resolver n ''no-such-name.invalid'' = (Inl Gaierror, Suc n)"
  by (simp add: test_resolver_def is_ascii_def)

lemma test_resolver_empty:
  "test_resolver n '''' = (Inr ''0.0.0.0'', n)"
  by (simp add: test_resolver_def)




lemma run_abort:
  "check_if_resolves test_resolver utf8_print
     [''check_if_resolves.py'', long_label, ''example.com''] 0
     = (Some (OtherException ''encoding of hostname failed''),
        \<lparr>world = 0, calls = [(long_label, Inl (OtherException ''encoding of hostname failed''))],
         prints = [], stdout = []\<rparr>)"
  by (simp add: check_if_resolves_def initial_def loop_body_def test_resolver_long_label)

lemma run_abort_twice:
  "check_if_resolves test_resolver utf8_print
     [''check_if_resolves.py'', long_label, long_label] 0
     = (Some (OtherException ''encoding of hostname failed''),
        \<lparr>world = 0, calls = [(long_label, Inl (OtherException ''encoding of hostname failed''))],
         prints = [], stdout = []\<rparr>)"
  by (simp add: check_if_resolves_def initial_def loop_body_def test_resolver_long_label)

lemma run_abort_single:
  "check_if_resolves test_resolver utf8_print [''check_if_resolves.py'', long_label] 0
     = (Some (OtherException ''encoding of hostname failed''),
        \<lparr>world = 0, calls = [(long_label, Inl (OtherException ''encoding of hostname failed''))],
         prints = [], stdout = []\<rparr>)"
  by (simp add: check_if_resolves_def initial_def loop_body_def test_resolver_long_label)

lemma run_ok:
  "check_if_resolves test_resolver utf8_print
     [''check_if_resolves.py'', ''example.com'', ''no-such-name.invalid'', ''example.com''] 0
     = (None,
        \<lparr>world = 3,
         calls = [(''example.com'', Inr ''93.184.216.34''),
                  (''no-such-name.invalid'', Inl Gaierror),
                  (''example.com'', Inr ''93.184.216.34'')],
         prints = [(''example.com resolves to 93.184.216.34'', None),
                   (''no-such-name.invalid does not resolve'', None),
                   (''example.com resolves to 93.184.216.34'', None)],
         stdout = [''example.com resolves to 93.184.216.34'',
                   ''no-such-name.invalid does not resolve'',
                   ''example.com resolves to 93.184.216.34'']\<rparr>)"
  by (simp add: check_if_resolves_def initial_def loop_body_def test_resolver_example
      test_resolver_invalid resolves_msg_def does_not_resolve_msg_def utf8_print_def)


lemma run_twice:
  "check_if_resolves test_resolver utf8_print
     [''check_if_resolves.py'', ''example.com'', ''example.com''] 0
     = (None,
        \<lparr>world = 2,
         calls = [(''example.com'', Inr ''93.184.216.34''),
                  (''example.com'', Inr ''93.184.216.34'')],
         prints = [(''example.com resolves to 93.184.216.34'', None),
                   (''example.com resolves to 93.184.216.34'', None)],
         stdout = [''example.com resolves to 93.184.216.34'',
                   ''example.com resolves to 93.184.216.34'']\<rparr>)"
  by (simp add: check_if_resolves_def initial_def loop_body_def test_resolver_example
      resolves_msg_def utf8_print_def)



lemma reach_example:
  "for_loop test_resolver utf8_print [''example.com''] (initial 0)
     = (None, \<lparr>world = 1, calls = [(''example.com'', Inr ''93.184.216.34'')],
               prints = [(''example.com resolves to 93.184.216.34'', None)],
               stdout = [''example.com resolves to 93.184.216.34'']\<rparr>)"
  by (simp add: initial_def loop_body_def test_resolver_example resolves_msg_def
      utf8_print_def)


lemma test_resolver_only_gaierror:
  "raises_only_gaierror test_resolver [''example.com'', ''no-such-name.invalid'', ''example.com'']"
  by (simp add: raises_only_gaierror_def test_resolver_example test_resolver_invalid)

lemma utf8_print_never_raises: "never_raises utf8_print"
  by (simp add: never_raises_def utf8_print_def)

section \<open>The claims\<close>

text \<open>
  C5. On an empty list of domains, that is, when the command line holds the script's name
  alone or nothing at all, the run ends normally with nothing printed and no call of the
  resolver made; the world is untouched.
\<close>

theorem empty_input_no_output_no_calls:
  "check_if_resolves gethostbyname print [script] w
     = (None, \<lparr>world = w, calls = [], prints = [], stdout = []\<rparr>)
   \<and> check_if_resolves gethostbyname print [] w
     = (None, \<lparr>world = w, calls = [], prints = [], stdout = []\<rparr>)"
  by (simp add: check_if_resolves_def initial_def)

text \<open>
  The claim C1, as the spec states it, fails on a run that an exception other than
  \<open>gaierror\<close> ends: of two domains, the first with a label the encoding rejects,
  no line is printed.
\<close>

theorem one_line_per_domain_fails_on_other_exception:
  "length (stdout (snd (check_if_resolves test_resolver utf8_print
      [''check_if_resolves.py'', long_label, ''example.com''] 0)))
   \<noteq> length [long_label, ''example.com'']"
  by (simp add: run_abort)

text \<open>
  C1, amended. On every run that ends without an uncaught exception, that is, on which
  no call of the resolver raises an exception other than \<open>gaierror\<close> and no call of
  \<open>print\<close> raises, the number of lines printed is the number of domains on the
  command line, and the line at each index is the message for the domain at that index,
  with the resolver's answer to it.
\<close>

theorem one_line_per_domain:
  assumes "check_if_resolves g p argv w = (None, s')"
  shows "length (stdout s') = length (drop 1 argv)
     \<and> (\<forall>i < length (drop 1 argv).
           line_of (drop 1 argv ! i, snd (calls s' ! i)) = [stdout s' ! i])"
proof -
  note log = check_log[OF assms]
  have caught: "\<forall>c \<in> set (calls s'). \<not> uncaught (snd c)" using log(8) by simp
  have printed: "\<forall>q \<in> set (prints s'). snd q = None" using log(9) by simp
  have len: "length (calls s') = length (drop 1 argv)" using log(7) by simp
  have out: "stdout s' = lines_of (calls s')"
    using written_all[OF printed] by (simp add: log(1) log(3))
  have 1: "length (stdout s') = length (drop 1 argv)"
    using lines_of_caught[OF caught] by (simp add: out len)
  have 2: "line_of (drop 1 argv ! i, snd (calls s' ! i)) = [stdout s' ! i]"
    if i: "i < length (drop 1 argv)" for i
  proof -
    from i 1 have k: "i < length (stdout s')" by simp
    note at = stdout_nth[OF assms k]
    from at(3) have "(drop 1 argv ! i, snd (calls s' ! i)) = calls s' ! i"
      by (simp add: prod_eq_iff)
    with at(2) show ?thesis by simp
  qed
  from 1 2 show ?thesis by blast
qed

text \<open>The amended C1 on a run of three domains, one of them twice.\<close>

theorem one_line_per_domain_witness:
  "check_if_resolves test_resolver utf8_print
     [''check_if_resolves.py'', ''example.com'', ''no-such-name.invalid'', ''example.com''] 0
     = (None,
        \<lparr>world = 3,
         calls = [(''example.com'', Inr ''93.184.216.34''),
                  (''no-such-name.invalid'', Inl Gaierror),
                  (''example.com'', Inr ''93.184.216.34'')],
         prints = [(''example.com resolves to 93.184.216.34'', None),
                   (''no-such-name.invalid does not resolve'', None),
                   (''example.com resolves to 93.184.216.34'', None)],
         stdout = [''example.com resolves to 93.184.216.34'',
                   ''no-such-name.invalid does not resolve'',
                   ''example.com resolves to 93.184.216.34'']\<rparr>)
   \<and> length [''example.com resolves to 93.184.216.34'',
              ''no-such-name.invalid does not resolve'',
              ''example.com resolves to 93.184.216.34'']
       = length (drop 1 [''check_if_resolves.py'', ''example.com'', ''no-such-name.invalid'',
                         ''example.com''])
   \<and> line_of (''no-such-name.invalid'', Inl Gaierror)
       = [''no-such-name.invalid does not resolve'']"
proof -
  note t = one_line_per_domain[OF run_ok]
  from t have a: "length [''example.com resolves to 93.184.216.34'',
              ''no-such-name.invalid does not resolve'',
              ''example.com resolves to 93.184.216.34'']
       = length (drop 1 [''check_if_resolves.py'', ''example.com'', ''no-such-name.invalid'',
                         ''example.com''])"
    by simp
  from t have "line_of (drop 1 [''check_if_resolves.py'', ''example.com'',
                   ''no-such-name.invalid'', ''example.com''] ! 1,
                 snd ([(''example.com'', Inr ''93.184.216.34''),
                  (''no-such-name.invalid'', Inl Gaierror),
                  (''example.com'', Inr ''93.184.216.34'')] ! 1))
       = [[''example.com resolves to 93.184.216.34'',
              ''no-such-name.invalid does not resolve'',
              ''example.com resolves to 93.184.216.34''] ! 1]"
    by (simp add: does_not_resolve_msg_def)
  then have b: "line_of (''no-such-name.invalid'', Inl Gaierror)
       = [''no-such-name.invalid does not resolve'']"
    by simp
  from run_ok a b show ?thesis by blast
qed

text \<open>
  C4. The lines are printed in the order of the input: for indices \<open>i < j\<close> of printed
  lines, the line at \<open>i\<close> of the output is the message for the domain at \<open>i\<close> of the
  input and the line at \<open>j\<close> the message for the domain at \<open>j\<close>, so the message for
  the earlier domain is printed before the message for the later one. This holds on every
  run, also one that an exception ends.
\<close>

theorem output_in_input_order:
  assumes run: "check_if_resolves g p argv w = (r, s')"
    and ij: "i < j" and j: "j < length (stdout s')"
  shows "j < length (drop 1 argv)
     \<and> line_of (drop 1 argv ! i, snd (calls s' ! i)) = [stdout s' ! i]
     \<and> line_of (drop 1 argv ! j, snd (calls s' ! j)) = [stdout s' ! j]"
proof -
  have at: "k < length (drop 1 argv)
      \<and> line_of (drop 1 argv ! k, snd (calls s' ! k)) = [stdout s' ! k]"
    if k: "k < length (stdout s')" for k
  proof -
    note n = stdout_nth[OF run k]
    from n(3) have "(drop 1 argv ! k, snd (calls s' ! k)) = calls s' ! k"
      by (simp add: prod_eq_iff)
    with n(2) n(4) show ?thesis by simp
  qed
  from ij j have i: "i < length (stdout s')" by simp
  from at[OF i] at[OF j] show ?thesis by blast
qed

text \<open>C4 at the first two of three domains.\<close>

theorem output_in_input_order_witness:
  "check_if_resolves test_resolver utf8_print
     [''check_if_resolves.py'', ''example.com'', ''no-such-name.invalid'', ''example.com''] 0
     = (None,
        \<lparr>world = 3,
         calls = [(''example.com'', Inr ''93.184.216.34''),
                  (''no-such-name.invalid'', Inl Gaierror),
                  (''example.com'', Inr ''93.184.216.34'')],
         prints = [(''example.com resolves to 93.184.216.34'', None),
                   (''no-such-name.invalid does not resolve'', None),
                   (''example.com resolves to 93.184.216.34'', None)],
         stdout = [''example.com resolves to 93.184.216.34'',
                   ''no-such-name.invalid does not resolve'',
                   ''example.com resolves to 93.184.216.34'']\<rparr>)
   \<and> (0::nat) < 1
   \<and> (1::nat) < length [''example.com resolves to 93.184.216.34'',
                   ''no-such-name.invalid does not resolve'',
                   ''example.com resolves to 93.184.216.34'']
   \<and> line_of (''example.com'', Inr ''93.184.216.34'')
        = [''example.com resolves to 93.184.216.34'']
   \<and> line_of (''no-such-name.invalid'', Inl Gaierror)
        = [''no-such-name.invalid does not resolve'']"
proof -
  have ij: "(0::nat) < 1" by simp
  have j: "1 < length (stdout \<lparr>world = 3::nat,
         calls = [(''example.com'', Inr ''93.184.216.34''),
                  (''no-such-name.invalid'', Inl Gaierror),
                  (''example.com'', Inr ''93.184.216.34'')],
         prints = [(''example.com resolves to 93.184.216.34'', None),
                   (''no-such-name.invalid does not resolve'', None),
                   (''example.com resolves to 93.184.216.34'', None)],
         stdout = [''example.com resolves to 93.184.216.34'',
                   ''no-such-name.invalid does not resolve'',
                   ''example.com resolves to 93.184.216.34'']\<rparr>)"
    by simp
  note t = output_in_input_order[OF run_ok ij j]
  from t run_ok show ?thesis by simp
qed

text \<open>
  The claim C6, as the spec states it, fails on a run that an exception other than
  \<open>gaierror\<close> ends: of two equal entries, only the first is submitted to the resolver.
\<close>

theorem equal_inputs_one_call_on_other_exception:
  "map fst (calls (snd (check_if_resolves test_resolver utf8_print
      [''check_if_resolves.py'', long_label, long_label] 0))) = [long_label]
   \<and> [long_label] \<noteq> [long_label, long_label]"
  by (simp add: run_abort_twice)

text \<open>
  C6, amended. The calls of the resolver follow the input: the arguments of the calls, in
  order, are the first entries of the list of domains, one call for each entry the loop
  reaches, none for a second time and none left out for being equal to an earlier one. On
  a run that ends without an uncaught exception the arguments of the calls are the whole
  list of domains, so two equal entries are two calls.
\<close>

theorem calls_follow_input:
  assumes run: "check_if_resolves g p argv w = (r, s')"
  shows "map fst (calls s') = take (length (calls s')) (drop 1 argv)
     \<and> (r = None \<longrightarrow> map fst (calls s') = drop 1 argv)"
proof -
  note log = check_log[OF run]
  have "map fst (calls s') = drop 1 argv" if "r = None"
    using log(2) log(7)[OF that] by simp
  with log(2) show ?thesis by blast
qed

text \<open>The amended C6 on a run with the same domain twice.\<close>

theorem calls_follow_input_witness:
  "check_if_resolves test_resolver utf8_print
     [''check_if_resolves.py'', ''example.com'', ''example.com''] 0
     = (None,
        \<lparr>world = 2,
         calls = [(''example.com'', Inr ''93.184.216.34''),
                  (''example.com'', Inr ''93.184.216.34'')],
         prints = [(''example.com resolves to 93.184.216.34'', None),
                   (''example.com resolves to 93.184.216.34'', None)],
         stdout = [''example.com resolves to 93.184.216.34'',
                   ''example.com resolves to 93.184.216.34'']\<rparr>)
   \<and> map fst [(''example.com'', Inr ''93.184.216.34'' :: answer),
               (''example.com'', Inr ''93.184.216.34'')]
       = drop 1 [''check_if_resolves.py'', ''example.com'', ''example.com'']"
proof -
  note t = calls_follow_input[OF run_twice]
  from t run_twice show ?thesis by simp
qed

text \<open>
  C9. When the loop reaches a domain \<open>d\<close> and the resolver raises an exception other
  than \<open>gaierror\<close> for it, the exception leaves the script: the run ends with that
  exception, the lines printed are those of the domains before \<open>d\<close> only, and the last
  call made is the one for \<open>d\<close>, so that the domains after \<open>d\<close> are neither resolved
  nor reported.
\<close>

theorem other_exception_aborts_run:
  assumes reach: "for_loop g p pre (initial w) = (None, s)"
    and ans: "g (world s) d = (Inl e, w')"
    and other: "e \<noteq> Gaierror"
  shows "check_if_resolves g p (script # pre @ d # post) w
           = (Some e, s\<lparr>world := w', calls := calls s @ [(d, Inl e)]\<rparr>)
     \<and> length (stdout s) = length pre
     \<and> length (calls s) = length pre"
  using uncaught_at[OF reach ans other] reach_lengths[OF reach] by simp

text \<open>C9 at the second of three domains.\<close>

theorem other_exception_aborts_run_witness:
  "for_loop test_resolver utf8_print [''example.com''] (initial 0)
     = (None, \<lparr>world = 1, calls = [(''example.com'', Inr ''93.184.216.34'')],
               prints = [(''example.com resolves to 93.184.216.34'', None)],
               stdout = [''example.com resolves to 93.184.216.34'']\<rparr>)
   \<and> test_resolver 1 long_label = (Inl (OtherException ''encoding of hostname failed''), 1)
   \<and> OtherException ''encoding of hostname failed'' \<noteq> Gaierror
   \<and> check_if_resolves test_resolver utf8_print
        [''check_if_resolves.py'', ''example.com'', long_label, ''example.com''] 0
       = (Some (OtherException ''encoding of hostname failed''),
          \<lparr>world = 1,
           calls = [(''example.com'', Inr ''93.184.216.34''),
                    (long_label, Inl (OtherException ''encoding of hostname failed''))],
           prints = [(''example.com resolves to 93.184.216.34'', None)],
           stdout = [''example.com resolves to 93.184.216.34'']\<rparr>)"
proof -
  have ans: "test_resolver (world \<lparr>world = 1::nat,
               calls = [(''example.com'', Inr ''93.184.216.34'')],
               prints = [(''example.com resolves to 93.184.216.34'', None)],
               stdout = [''example.com resolves to 93.184.216.34'']\<rparr>) long_label
       = (Inl (OtherException ''encoding of hostname failed''), 1)"
    by (simp add: test_resolver_long_label)
  have other: "OtherException ''encoding of hostname failed'' \<noteq> Gaierror" by simp
  note t = other_exception_aborts_run[where g = test_resolver and p = utf8_print,
      OF reach_example ans other, of "''check_if_resolves.py''" "[''example.com'']"]
  from t reach_example show ?thesis
    by (auto simp del: for_loop.simps simp add: test_resolver_long_label)
qed

text \<open>
  The claim C2, as the spec states it, fails where a resolution fails with an exception
  other than \<open>gaierror\<close>: the exception leaves the script, no line is printed for
  the failing domain, and the domain after it is never resolved.
\<close>

theorem other_exception_is_thrown_not_recorded:
  "check_if_resolves test_resolver utf8_print
     [''check_if_resolves.py'', long_label, ''example.com''] 0
     = (Some (OtherException ''encoding of hostname failed''),
        \<lparr>world = 0,
         calls = [(long_label, Inl (OtherException ''encoding of hostname failed''))],
         prints = [], stdout = []\<rparr>)"
  by (rule run_abort)

text \<open>
  C2, amended. A resolution that fails with \<open>gaierror\<close> does not by itself end the
  run: when the loop reaches a domain \<open>d\<close>, the resolver raises \<open>gaierror\<close> for it
  and \<open>print\<close> writes the message, the line \<open>d does not resolve\<close> stands at the
  index of \<open>d\<close> and the loop goes on with the domains after \<open>d\<close>. When the resolver
  raises no other exception on the domains of the command line and \<open>print\<close> never
  raises, no exception leaves the script.
\<close>

theorem gaierror_is_recorded_and_run_continues:
  assumes reach: "for_loop g p pre (initial w) = (None, s)"
    and fail: "g (world s) d = (Inl Gaierror, w1)"
    and wrote: "p w1 (d @ '' does not resolve'') = (None, w2)"
  shows "check_if_resolves g p (script # pre @ d # post) w
           = for_loop g p post
               (s\<lparr>world := w2, calls := calls s @ [(d, Inl Gaierror)],
                  prints := prints s @ [(d @ '' does not resolve'', None)],
                  stdout := stdout s @ [d @ '' does not resolve'']\<rparr>)
     \<and> stdout (snd (check_if_resolves g p (script # pre @ d # post) w)) ! length pre
           = d @ '' does not resolve''
     \<and> (raises_only_gaierror g (pre @ d # post) \<and> never_raises p
          \<longrightarrow> fst (check_if_resolves g p (script # pre @ d # post) w) = None)"
proof -
  have line: "line_of (d, Inl Gaierror) = [d @ '' does not resolve'']"
    by (simp add: does_not_resolve_msg_def)
  note at = written_at[where g = g and p = p, OF reach fail line wrote, of script post]
  have 3: "raises_only_gaierror g (pre @ d # post) \<and> never_raises p
          \<longrightarrow> fst (check_if_resolves g p (script # pre @ d # post) w) = None"
    by (simp add: check_if_resolves_def only_gaierror_finishes)
  from at(1) at(3) 3 show ?thesis by blast
qed

text \<open>The amended C2 at the second of three domains.\<close>

theorem gaierror_is_recorded_and_run_continues_witness:
  "for_loop test_resolver utf8_print [''example.com''] (initial 0)
     = (None, \<lparr>world = 1, calls = [(''example.com'', Inr ''93.184.216.34'')],
               prints = [(''example.com resolves to 93.184.216.34'', None)],
               stdout = [''example.com resolves to 93.184.216.34'']\<rparr>)
   \<and> test_resolver 1 ''no-such-name.invalid'' = (Inl Gaierror, 2)
   \<and> utf8_print (2::nat) ''no-such-name.invalid does not resolve'' = (None, 2)
   \<and> raises_only_gaierror test_resolver
        [''example.com'', ''no-such-name.invalid'', ''example.com'']
   \<and> never_raises (utf8_print :: nat printer)
   \<and> check_if_resolves test_resolver utf8_print
        [''check_if_resolves.py'', ''example.com'', ''no-such-name.invalid'', ''example.com''] 0
        = for_loop test_resolver utf8_print [''example.com'']
            \<lparr>world = 2,
             calls = [(''example.com'', Inr ''93.184.216.34''),
                      (''no-such-name.invalid'', Inl Gaierror)],
             prints = [(''example.com resolves to 93.184.216.34'', None),
                       (''no-such-name.invalid does not resolve'', None)],
             stdout = [''example.com resolves to 93.184.216.34'',
                       ''no-such-name.invalid does not resolve'']\<rparr>
   \<and> stdout (snd (check_if_resolves test_resolver utf8_print
        [''check_if_resolves.py'', ''example.com'', ''no-such-name.invalid'', ''example.com''] 0))
         ! 1 = ''no-such-name.invalid does not resolve''
   \<and> fst (check_if_resolves test_resolver utf8_print
        [''check_if_resolves.py'', ''example.com'', ''no-such-name.invalid'', ''example.com''] 0)
        = None"
proof -
  have fail: "test_resolver (world \<lparr>world = 1::nat,
               calls = [(''example.com'', Inr ''93.184.216.34'')],
               prints = [(''example.com resolves to 93.184.216.34'', None)],
               stdout = [''example.com resolves to 93.184.216.34'']\<rparr>) ''no-such-name.invalid''
       = (Inl Gaierror, 2)"
    by (simp add: test_resolver_invalid)
  have wrote: "utf8_print (2::nat) (''no-such-name.invalid'' @ '' does not resolve'') = (None, 2)"
    by (simp add: utf8_print_def)
  note t = gaierror_is_recorded_and_run_continues[where g = test_resolver and p = utf8_print,
      OF reach_example fail wrote, of "''check_if_resolves.py''" "[''example.com'']"]
  from t test_resolver_only_gaierror utf8_print_never_raises reach_example wrote
  show ?thesis
    by (auto simp del: for_loop.simps simp add: test_resolver_invalid)
qed



text \<open>
  The claim C7, as the spec states it, fails on a malformed name whose resolution fails
  with an exception other than \<open>gaierror\<close>: the name, with a label of 64 characters
  outside ASCII, is submitted as it is, but its failure is not printed as
  \<open>does not resolve\<close>; the exception leaves the script.
\<close>

theorem malformed_name_not_reported_on_other_exception:
  "check_if_resolves test_resolver utf8_print [''check_if_resolves.py'', long_label] 0
     = (Some (OtherException ''encoding of hostname failed''),
        \<lparr>world = 0,
         calls = [(long_label, Inl (OtherException ''encoding of hostname failed''))],
         prints = [], stdout = []\<rparr>)
   \<and> [] \<noteq> [long_label @ '' does not resolve'']"
  by (simp add: run_abort_single)

text \<open>
  C7, amended. Whatever the string \<open>d\<close> is (empty and malformed strings included), when
  the loop reaches it the resolver is called with \<open>d\<close> itself, and what follows is
  what the resolver answers and what \<open>print\<close> does with the message. On an address
  the message is \<open>d resolves to\<close> with the address, on \<open>gaierror\<close> it is
  \<open>d does not resolve\<close>; when \<open>print\<close> writes it, it stands at the index of
  \<open>d\<close>, and when \<open>print\<close> raises, no line stands for \<open>d\<close> and the exception of
  \<open>print\<close> leaves the script. On any other exception of the resolver no line stands
  for \<open>d\<close> and that exception leaves the script. There is no message of a third kind.
\<close>

theorem name_submitted_as_is:
  assumes reach: "for_loop g p pre (initial w) = (None, s)"
    and ans: "g (world s) d = (a, w1)"
  shows "calls (snd (check_if_resolves g p (script # pre @ d # post) w)) ! length pre = (d, a)
     \<and> (case a of
          Inr ip \<Rightarrow>
            (case p w1 (d @ '' resolves to '' @ ip) of
               (None, w2) \<Rightarrow>
                 stdout (snd (check_if_resolves g p (script # pre @ d # post) w)) ! length pre
                   = d @ '' resolves to '' @ ip
             | (Some t, w2) \<Rightarrow>
                 fst (check_if_resolves g p (script # pre @ d # post) w)
                   = Some (OtherException t)
               \<and> length (stdout (snd (check_if_resolves g p (script # pre @ d # post) w)))
                   = length pre)
        | Inl e \<Rightarrow>
            if e = Gaierror
            then (case p w1 (d @ '' does not resolve'') of
                    (None, w2) \<Rightarrow>
                      stdout (snd (check_if_resolves g p (script # pre @ d # post) w))
                        ! length pre = d @ '' does not resolve''
                  | (Some t, w2) \<Rightarrow>
                      fst (check_if_resolves g p (script # pre @ d # post) w)
                        = Some (OtherException t)
                    \<and> length (stdout (snd (check_if_resolves g p (script # pre @ d # post) w)))
                        = length pre)
            else fst (check_if_resolves g p (script # pre @ d # post) w) = Some e
               \<and> length (stdout (snd (check_if_resolves g p (script # pre @ d # post) w)))
                   = length pre)"
proof -
  let ?R = "check_if_resolves g p (script # pre @ d # post) w"
  note len = reach_lengths[OF reach]
  have caught: "calls (snd ?R) ! length pre = (d, a)
      \<and> (case p w1 m of
            (None, w2) \<Rightarrow> stdout (snd ?R) ! length pre = m
          | (Some t, w2) \<Rightarrow> fst ?R = Some (OtherException t)
                              \<and> length (stdout (snd ?R)) = length pre)"
    if line: "line_of (d, a) = [m]" for m
  proof (cases "p w1 m")
    case (Pair o2 w2)
    show ?thesis
    proof (cases o2)
      case None
      note at = written_at[where g = g and p = p, OF reach ans line Pair[unfolded None],
          of script post]
      from at(2) at(3) show ?thesis by (simp add: Pair None)
    next
      case (Some t)
      note at = print_raises_at[where g = g and p = p, OF reach ans line Pair[unfolded Some],
          of script post]
      from at len show ?thesis by (simp add: Pair Some nth_append)
    qed
  qed
  show ?thesis
  proof (cases a)
    case (Inr ip)
    have "line_of (d, a) = [d @ '' resolves to '' @ ip]" by (simp add: Inr resolves_msg_def)
    from caught[OF this] show ?thesis by (simp add: Inr)
  next
    case (Inl e)
    show ?thesis
    proof (cases "e = Gaierror")
      case True
      have "line_of (d, a) = [d @ '' does not resolve'']"
        by (simp add: Inl True does_not_resolve_msg_def)
      from caught[OF this] show ?thesis by (simp add: Inl True)
    next
      case False
      from uncaught_at[where g = g and p = p, OF reach ans[unfolded Inl] False, of script post]
        len
      show ?thesis by (simp add: Inl False nth_append)
    qed
  qed
qed

text \<open>The amended C7 at the empty string, the second of three domains.\<close>

theorem name_submitted_as_is_witness:
  "for_loop test_resolver utf8_print [''example.com''] (initial 0)
     = (None, \<lparr>world = 1, calls = [(''example.com'', Inr ''93.184.216.34'')],
               prints = [(''example.com resolves to 93.184.216.34'', None)],
               stdout = [''example.com resolves to 93.184.216.34'']\<rparr>)
   \<and> test_resolver 1 '''' = (Inr ''0.0.0.0'', 1)
   \<and> utf8_print (1::nat) '' resolves to 0.0.0.0'' = (None, 1)
   \<and> calls (snd (check_if_resolves test_resolver utf8_print
         [''check_if_resolves.py'', ''example.com'', '''', ''example.com''] 0)) ! 1
       = ('''', Inr ''0.0.0.0'')
   \<and> stdout (snd (check_if_resolves test_resolver utf8_print
         [''check_if_resolves.py'', ''example.com'', '''', ''example.com''] 0)) ! 1
       = '' resolves to 0.0.0.0''"
proof -
  have ans: "test_resolver (world \<lparr>world = 1::nat,
               calls = [(''example.com'', Inr ''93.184.216.34'')],
               prints = [(''example.com resolves to 93.184.216.34'', None)],
               stdout = [''example.com resolves to 93.184.216.34'']\<rparr>) ''''
       = (Inr ''0.0.0.0'', 1)"
    by (simp add: test_resolver_empty)
  have wrote: "utf8_print (1::nat) '' resolves to 0.0.0.0'' = (None, 1)"
    by (simp add: utf8_print_def)
  note t = name_submitted_as_is[where g = test_resolver and p = utf8_print,
      OF reach_example ans, of "''check_if_resolves.py''" "[''example.com'']"]
  from t reach_example wrote show ?thesis
    by (auto simp del: for_loop.simps simp add: test_resolver_empty)
qed






end
